theory Spec2Isabelle
  imports Main "HOL-Library.Sublist" "HOL-Library.Multiset"
begin

section \<open>JavaScript values and string primitives\<close>

text \<open>
  The site builder of \<^verbatim>\<open>scripts/build.js\<close> reads article records from a JSON file and
  renders them.  A field of an article record is absent (\<^verbatim>\<open>undefined\<close>), \<^verbatim>\<open>null\<close> or a
  string.  Strings are lists of code units; the model covers the code units 0 to 255
  (ASCII and Latin-1), and \<^verbatim>\<open>length\<close> counts code units as JavaScript's does.
\<close>

datatype field = Undefined | Null | Str string

text \<open>Truthiness: the empty string, \<^verbatim>\<open>null\<close> and \<^verbatim>\<open>undefined\<close> are falsy.\<close>

definition truthy :: "field \<Rightarrow> bool" where
  "truthy v = (case v of Str s \<Rightarrow> s \<noteq> [] | _ \<Rightarrow> False)"

text \<open>\<^verbatim>\<open>a || b\<close> on two fields.\<close>

definition js_or :: "field \<Rightarrow> field \<Rightarrow> field" where
  "js_or a b = (if truthy a then a else b)"

text \<open>\<^verbatim>\<open>a || 'literal'\<close>: the result is always a string.\<close>

definition or_string :: "field \<Rightarrow> string \<Rightarrow> string" where
  "or_string a d = (case a of Str s \<Rightarrow> (if s = [] then d else s) | _ \<Rightarrow> d)"

text \<open>Interpolation \<^verbatim>\<open>${v}\<close> in a template literal.\<close>

definition toString :: "field \<Rightarrow> string" where
  "toString v = (case v of Undefined \<Rightarrow> ''undefined'' | Null \<Rightarrow> ''null'' | Str s \<Rightarrow> s)"

text \<open>
  \<^verbatim>\<open>String.prototype.toLowerCase\<close> on the code units 0 to 255: A to Z, and the Latin-1
  capitals U+00C0 to U+00DE except the multiplication sign U+00D7, move up by 32.
\<close>

definition lower_char :: "char \<Rightarrow> char" where
  "lower_char c =
     (let n = (of_char c :: nat)
      in if (65 \<le> n \<and> n \<le> 90) \<or> (192 \<le> n \<and> n \<le> 222 \<and> n \<noteq> 215)
         then char_of (n + 32) else c)"

definition toLowerCase :: "string \<Rightarrow> string" where
  "toLowerCase s = map lower_char s"

text \<open>The character class \<^verbatim>\<open>[a-z0-9]\<close>.\<close>

definition alnum :: "char \<Rightarrow> bool" where
  "alnum c = (let n = (of_char c :: nat) in (97 \<le> n \<and> n \<le> 122) \<or> (48 \<le> n \<and> n \<le> 57))"

text \<open>
  \<^verbatim>\<open>.replace(/[^a-z0-9]+/g, '-')\<close>: every maximal run of characters outside the class
  becomes one hyphen.
\<close>

function replaceNonAlnum :: "string \<Rightarrow> string" where
  "replaceNonAlnum [] = []"
| "replaceNonAlnum (c # cs) =
     (if alnum c then c # replaceNonAlnum cs
      else CHR ''-'' # replaceNonAlnum (dropWhile (\<lambda>x. \<not> alnum x) cs))"
  by pat_completeness auto
termination
  by (relation "measure length") (auto simp: length_dropWhile_le less_Suc_eq_le)

text \<open>
  \<^verbatim>\<open>.replace(/^-|-$/g, '')\<close>: one hyphen at the start and one hyphen at the end are
  removed (the same hyphen when the string is a single hyphen).
\<close>

definition trimHyphens :: "string \<Rightarrow> string" where
  "trimHyphens s =
     (let s1 = (case s of [] \<Rightarrow> [] | c # cs \<Rightarrow> if c = CHR ''-'' then cs else s)
      in if s1 \<noteq> [] \<and> last s1 = CHR ''-'' then butlast s1 else s1)"

text \<open>
  \<^verbatim>\<open>String.prototype.trim\<close>: white space and line terminators among the code units
  0 to 255 are TAB, LF, VT, FF, CR, SPACE and NBSP.
\<close>

definition isWhiteSpace :: "char \<Rightarrow> bool" where
  "isWhiteSpace c = ((of_char c :: nat) \<in> {9, 10, 11, 12, 13, 32, 160})"

definition trim :: "string \<Rightarrow> string" where
  "trim s = rev (dropWhile isWhiteSpace (rev (dropWhile isWhiteSpace s)))"

text \<open>
  \<^verbatim>\<open>.replace(/<[^>]*>/g, '')\<close>: scanning from the left, a \<^verbatim>\<open><\<close> that has a \<^verbatim>\<open>>\<close>
  somewhere after it is removed together with everything up to and including the first
  such \<^verbatim>\<open>>\<close>; a \<^verbatim>\<open><\<close> with no \<^verbatim>\<open>>\<close> after it stays.
\<close>

function stripTags :: "string \<Rightarrow> string" where
  "stripTags [] = []"
| "stripTags (c # cs) =
     (if c = CHR ''<'' \<and> CHR ''>'' \<in> set cs
      then stripTags (tl (dropWhile (\<lambda>x. x \<noteq> CHR ''>'') cs))
      else c # stripTags cs)"
  by pat_completeness auto
termination
proof (relation "measure length")
  show "wf (measure length)" by simp
next
  fix c :: char and cs :: string
  have "length (tl (dropWhile (\<lambda>x. x \<noteq> CHR ''>'') cs)) \<le> length cs"
    using length_dropWhile_le [of "\<lambda>x. x \<noteq> CHR ''>''" cs] by simp
  then show "(tl (dropWhile (\<lambda>x. x \<noteq> CHR ''>'') cs), c # cs) \<in> measure length"
    by simp
next
  fix c :: char and cs :: string
  show "(cs, c # cs) \<in> measure length" by simp
qed

text \<open>
  \<^verbatim>\<open>s.split(sep)\<close> for a non-empty separator: the separator is searched from the left,
  occurrences do not overlap, and the result always has at least one segment.
\<close>

function split :: "string \<Rightarrow> string \<Rightarrow> string list" where
  "split sep [] = [[]]"
| "split sep (c # cs) =
     (if sep \<noteq> [] \<and> prefix sep (c # cs)
      then [] # split sep (drop (length sep) (c # cs))
      else (let r = split sep cs in (c # hd r) # tl r))"
  by pat_completeness auto
termination
  by (relation "measure (\<lambda>(sep, s). length s)") (auto simp: neq_Nil_conv)

text \<open>
  \<^verbatim>\<open>xs.join(sep)\<close>.  The builder joins with the empty separator only, which is
  concatenation; with the separator of a split it gives the string back.
\<close>

fun joinWith :: "string \<Rightarrow> string list \<Rightarrow> string" where
  "joinWith sep [] = []"
| "joinWith sep [x] = x"
| "joinWith sep (x # y # ys) = x @ sep @ joinWith sep (y # ys)"

section \<open>Article records\<close>

text \<open>
  An article record as the builder reads it.  The field \<^verbatim>\<open>id\<close> is called \<open>a_id\<close> here.
\<close>

record article =
  a_id :: field
  slug :: field
  title :: field
  content :: field
  excerpt :: field
  author :: field
  date :: field
  published_at :: field

definition no_article :: article where
  "no_article = \<lparr>a_id = Undefined, slug = Undefined, title = Undefined, content = Undefined,
     excerpt = Undefined, author = Undefined, date = Undefined, published_at = Undefined\<rparr>"

subsection \<open>getArticleSlug\<close>

definition getArticleSlug :: "article \<Rightarrow> string" where
  "getArticleSlug a =
     trimHyphens (replaceNonAlnum (toLowerCase
       (or_string (js_or (js_or (slug a) (a_id a)) (title a)) ''untitled'')))"

text \<open>The pattern \<^verbatim>\<open>[a-z0-9]+(-[a-z0-9]+)*\<close>, as a matcher.\<close>

fun slug_tail :: "string \<Rightarrow> bool" where
  "slug_tail [] = True"
| "slug_tail (c # cs) =
     (if alnum c then slug_tail cs
      else c = CHR ''-'' \<and> (case cs of [] \<Rightarrow> False | d # ds \<Rightarrow> alnum d \<and> slug_tail ds))"

fun slug_pattern :: "string \<Rightarrow> bool" where
  "slug_pattern [] = False"
| "slug_pattern (c # cs) = (alnum c \<and> slug_tail cs)"

text \<open>
  Two notions for the proofs about slugs: a string in which every character is of the
  class or a hyphen that a character of the class follows (or that ends the string), and
  the removal of one final hyphen.
\<close>

fun collapsed :: "string \<Rightarrow> bool" where
  "collapsed [] = True"
| "collapsed [c] = (alnum c \<or> c = CHR ''-'')"
| "collapsed (c # d # cs) = ((alnum c \<or> (c = CHR ''-'' \<and> alnum d)) \<and> collapsed (d # cs))"

definition dropLastHyphen :: "string \<Rightarrow> string" where
  "dropLastHyphen s = (if s \<noteq> [] \<and> last s = CHR ''-'' then butlast s else s)"

subsection \<open>extractExcerpt and formatContent\<close>

text \<open>\<^verbatim>\<open>extractExcerpt(content, length = 150)\<close>; every caller uses the default length.\<close>

definition extractExcerptLen :: "field \<Rightarrow> nat \<Rightarrow> string" where
  "extractExcerptLen c len =
     (case c of
        Str s \<Rightarrow>
          (if s = [] then []
           else (let text = trim (stripTags s)
                 in if length text > len then take len text @ ''...'' else text))
      | _ \<Rightarrow> [])"

definition extractExcerpt :: "field \<Rightarrow> string" where
  "extractExcerpt c = extractExcerptLen c 150"

text \<open>The arrow function of \<^verbatim>\<open>formatContent\<close>: one segment, trimmed, in a paragraph tag.\<close>

definition wrapParagraph :: "string \<Rightarrow> string" where
  "wrapParagraph p = ''<p>'' @ trim p @ ''</p>''"

definition formatContent :: "field \<Rightarrow> string" where
  "formatContent c =
     (case c of
        Str s \<Rightarrow>
          (if s = [] then []
           else if CHR ''<'' \<notin> set s
             then concat (map wrapParagraph (split ''\<newline>\<newline>'' s))
             else s)
      | _ \<Rightarrow> [])"

section \<open>The JavaScript runtime and the file system\<close>

text \<open>
  \<^verbatim>\<open>JSON.parse\<close>, the \<^verbatim>\<open>Date\<close> constructor and its formatting methods belong to the
  language, not to the builder: they are parameters of the model.  \<open>JSON_parse\<close> throws
  (\<open>Inl\<close>) or returns the list of records of the file; \<open>Date_parse\<close> gives the time
  value in milliseconds of a date string, \<open>None\<close> for a string that is not a date
  (JavaScript's NaN).  One build runs at one point in time, \<open>Date_now\<close>.
\<close>

datatype js_error = SyntaxError | ENOENT | EACCES

record runtime =
  JSON_parse :: "string \<Rightarrow> js_error + article list"
  Date_parse :: "string \<Rightarrow> int option"
  toUTCString :: "int \<Rightarrow> string"
  toISOString :: "int \<Rightarrow> string"
  Date_now :: int

text \<open>
  What the file-system calls of one build do: the outcome of reading the articles file,
  of the \<^verbatim>\<open>mkdir\<close> calls, of reading the images directory, and of each write and copy
  by destination path.
\<close>

record fs_env =
  readFile_articles :: "js_error + string"
  mkdir_error :: "js_error option"
  readdir_images :: "js_error + string list"
  writeFile_error :: "string \<Rightarrow> js_error option"
  copyFile_error :: "string \<Rightarrow> js_error option"

subsection \<open>Dates\<close>

datatype jsdate = InvalidDate | TimeValue int

text \<open>\<^verbatim>\<open>new Date(s)\<close> for a string: a string that is not a date gives an invalid date.\<close>

definition newDate :: "runtime \<Rightarrow> string \<Rightarrow> jsdate" where
  "newDate rt s = (case Date_parse rt s of None \<Rightarrow> InvalidDate | Some t \<Rightarrow> TimeValue t)"

text \<open>
  \<^verbatim>\<open>new Date(v || d)\<close> for a field \<open>v\<close> and a number \<open>d\<close>: a truthy field is a
  non-empty string and is parsed, anything else gives way to the number.
\<close>

definition newDateOr :: "runtime \<Rightarrow> field \<Rightarrow> int \<Rightarrow> jsdate" where
  "newDateOr rt v d =
     (case v of
        Str s \<Rightarrow> (if s = [] then TimeValue d else newDate rt s)
      | _ \<Rightarrow> TimeValue d)"

text \<open>
  \<^verbatim>\<open>new Date(article.date || article.published_at || Date.now())\<close>, the date every
  renderer shows.
\<close>

definition articleDate :: "runtime \<Rightarrow> article \<Rightarrow> jsdate" where
  "articleDate rt a = newDateOr rt (js_or (date a) (published_at a)) (Date_now rt)"

text \<open>\<^verbatim>\<open>new Date(a.date || a.published_at || 0)\<close>, the date the sort compares.\<close>

definition sortDate :: "runtime \<Rightarrow> article \<Rightarrow> jsdate" where
  "sortDate rt a = newDateOr rt (js_or (date a) (published_at a)) 0"

text \<open>Subtracting two dates gives NaN (\<open>None\<close>) when either is invalid.\<close>

definition dateMinus :: "jsdate \<Rightarrow> jsdate \<Rightarrow> int option" where
  "dateMinus x y =
     (case x of InvalidDate \<Rightarrow> None
      | TimeValue s \<Rightarrow> (case y of InvalidDate \<Rightarrow> None | TimeValue t \<Rightarrow> Some (s - t)))"

definition utcString :: "runtime \<Rightarrow> jsdate \<Rightarrow> string" where
  "utcString rt d = (case d of InvalidDate \<Rightarrow> ''Invalid Date'' | TimeValue t \<Rightarrow> toUTCString rt t)"

text \<open>
  Two notions for the statements about the order of the articles: \<open>notOlder x y\<close>, both
  dates are valid and \<open>x\<close> is at least as recent as \<open>y\<close>; and the key by which the
  comparator of \<open>loadArticles\<close> orders, the negated time.
\<close>

definition notOlder :: "jsdate \<Rightarrow> jsdate \<Rightarrow> bool" where
  "notOlder x y = (case dateMinus x y of None \<Rightarrow> False | Some d \<Rightarrow> 0 \<le> d)"

definition sortKey :: "runtime \<Rightarrow> article \<Rightarrow> int" where
  "sortKey rt a = (case sortDate rt a of InvalidDate \<Rightarrow> 0 | TimeValue t \<Rightarrow> - t)"

subsection \<open>Array.prototype.sort\<close>

text \<open>
  The sort is stable, and a comparator result of NaN counts as 0.  For a comparator that
  orders the elements consistently every stable sort returns the same array; the model is
  the insertion sort that does so.  An element stays in front of a later one unless the
  comparator returns a positive number for the pair.  A comparator that returns NaN for
  some pairs need not be consistent, and ECMAScript then leaves the order to the engine:
  there the model is one stable sort among others and need not return what a given engine
  returns.  Where every comparison the engine makes is with the pair that gives NaN, as
  for three records of which the middle one has no valid date, the engine finds the
  array in order and moves nothing, and so does the model.
\<close>

definition sortCompare :: "('a \<Rightarrow> 'a \<Rightarrow> int option) \<Rightarrow> 'a \<Rightarrow> 'a \<Rightarrow> int" where
  "sortCompare cmp x y = (case cmp x y of None \<Rightarrow> 0 | Some v \<Rightarrow> v)"

fun insertBy :: "('a \<Rightarrow> 'a \<Rightarrow> int option) \<Rightarrow> 'a \<Rightarrow> 'a list \<Rightarrow> 'a list" where
  "insertBy cmp x [] = [x]"
| "insertBy cmp x (y # ys) =
     (if sortCompare cmp x y \<le> 0 then x # y # ys else y # insertBy cmp x ys)"

definition array_sort :: "('a \<Rightarrow> 'a \<Rightarrow> int option) \<Rightarrow> 'a list \<Rightarrow> 'a list" where
  "array_sort cmp xs = foldr (insertBy cmp) xs []"

section \<open>The build pipeline\<close>

subsection \<open>loadArticles\<close>

text \<open>The sample record has one more field, \<^verbatim>\<open>image: null\<close>, that no renderer reads.\<close>

definition createSampleArticles :: "runtime \<Rightarrow> article list" where
  "createSampleArticles rt =
     [\<lparr>a_id = Str ''sample-article'', slug = Undefined,
       title = Str ''Welcome to Your Automated Content Site'',
       content = Str ''This is a sample article. Update your articles.json file to add your own content!'',
       excerpt = Str ''Get started with your automated content management system.'',
       author = Str ''Site Builder'',
       date = Str (toISOString rt (Date_now rt)),
       published_at = Undefined\<rparr>]"

text \<open>The comparator of the sort: \<^verbatim>\<open>(a, b) => new Date(b...) - new Date(a...)\<close>.\<close>

definition compareArticles :: "runtime \<Rightarrow> article \<Rightarrow> article \<Rightarrow> int option" where
  "compareArticles rt a b = dateMinus (sortDate rt b) (sortDate rt a)"

text \<open>
  The \<^verbatim>\<open>try\<close> block holds the read, the parse and the sort; the \<^verbatim>\<open>catch\<close> answers any
  exception with the sample articles.
\<close>

definition loadArticles :: "runtime \<Rightarrow> fs_env \<Rightarrow> article list" where
  "loadArticles rt env =
     (case readFile_articles env of
        Inl e \<Rightarrow> createSampleArticles rt
      | Inr data \<Rightarrow>
          (case JSON_parse rt data of
             Inl e \<Rightarrow> createSampleArticles rt
           | Inr articles \<Rightarrow> array_sort (compareArticles rt) articles))"

subsection \<open>The feed\<close>

definition rssItem :: "runtime \<Rightarrow> article \<Rightarrow> string" where
  "rssItem rt a =
     (let slug = getArticleSlug a;
          date = utcString rt (articleDate rt a)
      in ''\<newline>        <item>\<newline>            <title><![CDATA['' @ toString (title a)
         @ '']]></title>\<newline>            <link>articles/'' @ slug
         @ ''.html</link>\<newline>            <description><![CDATA[''
         @ or_string (excerpt a) (extractExcerpt (content a))
         @ '']]></description>\<newline>            <pubDate>'' @ date
         @ ''</pubDate>\<newline>            <guid>articles/'' @ slug
         @ ''.html</guid>\<newline>        </item>\<newline>      '')"

text \<open>\<^verbatim>\<open>articles.slice(0, 20).map(...)\<close>, before the \<^verbatim>\<open>join('')\<close>.\<close>

definition rssItems :: "runtime \<Rightarrow> article list \<Rightarrow> string list" where
  "rssItems rt articles = map (rssItem rt) (take 20 articles)"

definition rssHead :: "runtime \<Rightarrow> string" where
  \<open>rssHead rt =
     ''<?xml version="1.0" encoding="UTF-8"?>\<newline><rss version="2.0">\<newline>    <channel>\<newline>''
     @ ''        <title>Daily Content Hub</title>\<newline>''
     @ ''        <description>Your automated content management system</description>\<newline>''
     @ ''        <link>/</link>\<newline>        <lastBuildDate>''
     @ toUTCString rt (Date_now rt) @ ''</lastBuildDate>\<newline>        ''\<close>

definition rssTail :: string where
  "rssTail = ''\<newline>    </channel>\<newline></rss>''"

definition getRSSFeed :: "runtime \<Rightarrow> article list \<Rightarrow> string" where
  "getRSSFeed rt articles =
     (let items = concat (rssItems rt articles) in rssHead rt @ items @ rssTail)"

subsection \<open>Counting the items of a feed\<close>

text \<open>
  The number of places at which the text of a feed has the opening tag \<^verbatim>\<open><item>\<close>, and
  the items whose title, description and date bring no \<^verbatim>\<open><\<close> of their own into the
  feed.
\<close>

fun countItems :: "string \<Rightarrow> nat" where
  "countItems [] = 0"
| "countItems (c # cs) = (if prefix ''<item>'' (c # cs) then 1 else 0) + countItems cs"

definition plainItem :: "runtime \<Rightarrow> article \<Rightarrow> bool" where
  "plainItem rt a =
     (CHR ''<'' \<notin> set (toString (title a))
      \<and> CHR ''<'' \<notin> set (or_string (excerpt a) (extractExcerpt (content a)))
      \<and> CHR ''<'' \<notin> set (utcString rt (articleDate rt a)))"

subsection \<open>Reading a CDATA section\<close>

text \<open>
  What a reader of the feed does with \<^verbatim>\<open><![CDATA[\<close>: by the XML grammar the section
  ends at the first \<^verbatim>\<open>]]>\<close> after it.  \<open>cdataBody\<close> is the text before that first
  terminator, \<open>readCDATA\<close> the section's text and what follows the section.
\<close>

fun cdataBody :: "string \<Rightarrow> string option" where
  "cdataBody [] = None"
| "cdataBody (c # cs) =
     (if prefix '']]>'' (c # cs) then Some []
      else (case cdataBody cs of None \<Rightarrow> None | Some t \<Rightarrow> Some (c # t)))"

definition readCDATA :: "string \<Rightarrow> (string \<times> string) option" where
  "readCDATA s =
     (if prefix ''<![CDATA['' s
      then (let body = drop 9 s
            in case cdataBody body of
                 None \<Rightarrow> None
               | Some t \<Rightarrow> Some (t, drop (length t + 3) body))
      else None)"

text \<open>An item starts with 35 characters of template text before the title's section.\<close>

definition titleSection :: "runtime \<Rightarrow> article \<Rightarrow> string" where
  "titleSection rt a = drop 35 (rssItem rt a)"

subsection \<open>build\<close>

text \<open>
  A build either fails, which the top-level \<^verbatim>\<open>catch\<close> turns into exit status 1, or
  completes and has written a list of files.  The model keeps the paths of the files
  written, in order, and the articles they were rendered from.
\<close>

fun writeAll :: "fs_env \<Rightarrow> string list \<Rightarrow> js_error + string list" where
  "writeAll env [] = Inr []"
| "writeAll env (p # ps) =
     (case writeFile_error env p of
        Some e \<Rightarrow> Inl e
      | None \<Rightarrow> (case writeAll env ps of Inl e \<Rightarrow> Inl e | Inr w \<Rightarrow> Inr (p # w)))"

text \<open>The copy loop runs inside a \<^verbatim>\<open>try\<close>: the first failure ends it with a warning.\<close>

fun copyImages :: "fs_env \<Rightarrow> string list \<Rightarrow> string list" where
  "copyImages env [] = []"
| "copyImages env (i # is) =
     (case copyFile_error env (''dist/images/'' @ i) of
        Some e \<Rightarrow> []
      | None \<Rightarrow> (''dist/images/'' @ i) # copyImages env is)"

definition copyAssets :: "fs_env \<Rightarrow> js_error + string list" where
  "copyAssets env =
     (case writeFile_error env ''dist/styles.css'' of
        Some e \<Rightarrow> Inl e
      | None \<Rightarrow>
          Inr (''dist/styles.css'' #
               (case readdir_images env of Inl e \<Rightarrow> [] | Inr images \<Rightarrow> copyImages env images)))"

definition pagePaths :: "article list \<Rightarrow> string list" where
  "pagePaths articles =
     ''dist/index.html''
       # map (\<lambda>a. ''dist/articles/'' @ getArticleSlug a @ ''.html'') articles
       @ [''dist/feed.xml'']"

record site =
  rendered :: "article list"
  written :: "string list"

definition build :: "runtime \<Rightarrow> fs_env \<Rightarrow> js_error + site" where
  "build rt env =
     (case mkdir_error env of
        Some e \<Rightarrow> Inl e
      | None \<Rightarrow>
          (let articles = loadArticles rt env
           in case copyAssets env of
                Inl e \<Rightarrow> Inl e
              | Inr assets \<Rightarrow>
                  (case writeAll env (pagePaths articles) of
                     Inl e \<Rightarrow> Inl e
                   | Inr pages \<Rightarrow> Inr \<lparr>rendered = articles, written = assets @ pages\<rparr>)))"

section \<open>Example data\<close>

text \<open>
  A runtime for the examples below.  On the strings and times the examples use it answers
  as JavaScript does: \<^verbatim>\<open>2024-01-01\<close> and \<^verbatim>\<open>2024-03-01\<close> are dates (read as UTC
  midnight), \<^verbatim>\<open>not a date\<close> is none, \<^verbatim>\<open>{not json\<close> is not JSON, and the build runs on
  1 June 2024 at midnight UTC.
\<close>

definition jan_article :: article where
  "jan_article = \<lparr>a_id = Undefined, slug = Undefined, title = Str ''January'',
     content = Undefined, excerpt = Undefined, author = Undefined,
     date = Str ''2024-01-01'', published_at = Undefined\<rparr>"

definition mar_article :: article where
  "mar_article = \<lparr>a_id = Undefined, slug = Undefined, title = Str ''March'',
     content = Undefined, excerpt = Undefined, author = Undefined,
     date = Str ''2024-03-01'', published_at = Undefined\<rparr>"

definition undated_article :: article where
  "undated_article = \<lparr>a_id = Undefined, slug = Undefined, title = Str ''Undated'',
     content = Undefined, excerpt = Undefined, author = Undefined,
     date = Undefined, published_at = Undefined\<rparr>"

definition three_articles_json :: string where
  \<open>three_articles_json =
     ''[{"title":"January","date":"2024-01-01"},{"title":"March","date":"2024-03-01"},{"title":"Undated"}]''\<close>

text \<open>
  Records whose date field is not a date, and whose only timestamp is \<^verbatim>\<open>published_at\<close>.
\<close>

definition unparseable_article :: article where
  "unparseable_article =
     no_article\<lparr>date := Str ''not a date'', published_at := Str ''2024-01-01''\<rparr>"

definition published_article :: article where
  "published_article = no_article\<lparr>date := Str [], published_at := Str ''2024-03-01''\<rparr>"

definition mixed_articles_json :: string where
  \<open>mixed_articles_json =
     ''[{"title":"January","date":"2024-01-01"},{"date":"not a date","published_at":"2024-01-01"},{"title":"March","date":"2024-03-01"}]''\<close>

definition demo_JSON_parse :: "string \<Rightarrow> js_error + article list" where
  "demo_JSON_parse s =
     (if s = three_articles_json then Inr [jan_article, mar_article, undated_article]
      else if s = mixed_articles_json then Inr [jan_article, unparseable_article, mar_article]
      else if s = ''[]'' then Inr []
      else Inl SyntaxError)"

definition demo_Date_parse :: "string \<Rightarrow> int option" where
  "demo_Date_parse s =
     (if s = ''2024-01-01'' then Some 1704067200000
      else if s = ''2024-03-01'' then Some 1709251200000
      else if s = ''2024-06-01T00:00:00.000Z'' then Some 1717200000000
      else None)"

definition demo_toUTCString :: "int \<Rightarrow> string" where
  "demo_toUTCString t =
     (if t = 1704067200000 then ''Mon, 01 Jan 2024 00:00:00 GMT''
      else if t = 1709251200000 then ''Fri, 01 Mar 2024 00:00:00 GMT''
      else if t = 1717200000000 then ''Sat, 01 Jun 2024 00:00:00 GMT''
      else ''Thu, 01 Jan 1970 00:00:00 GMT'')"

definition demo_toISOString :: "int \<Rightarrow> string" where
  "demo_toISOString t =
     (if t = 1717200000000 then ''2024-06-01T00:00:00.000Z'' else ''1970-01-01T00:00:00.000Z'')"

definition demo_runtime :: runtime where
  "demo_runtime = \<lparr>JSON_parse = demo_JSON_parse, Date_parse = demo_Date_parse,
     toUTCString = demo_toUTCString, toISOString = demo_toISOString,
     Date_now = 1717200000000\<rparr>"

text \<open>
  Contents for the excerpt: 150 letters and a space, 200 letters, and a short text that
  ends in three dots.
\<close>

definition padded_text :: string where
  "padded_text = replicate 150 (CHR ''a'') @ '' ''"

definition long_text :: string where
  "long_text = replicate 200 (CHR ''a'')"

definition dotted_text :: string where
  "dotted_text = ''Wait for it...''"

text \<open>Records with a title of punctuation only, and with a title that holds \<^verbatim>\<open>]]>\<close>.\<close>

definition punctuation_article :: article where
  "punctuation_article = no_article\<lparr>title := Str ''!!!''\<rparr>"

definition cdata_title_article :: article where
  "cdata_title_article = no_article\<lparr>title := Str ''a]]><x>''\<rparr>"

text \<open>
  A record whose title closes its own CDATA section, title element and item, and opens
  another item.
\<close>

definition breakout_article :: article where
  "breakout_article =
     no_article\<lparr>title := Str '']]></title></item><item><title><![CDATA[x''\<rparr>"

text \<open>A file system on which every call succeeds, around a given articles file.\<close>

definition fs_with :: "js_error + string \<Rightarrow> fs_env" where
  "fs_with file = \<lparr>readFile_articles = file, mkdir_error = None, readdir_images = Inr [],
     writeFile_error = (\<lambda>p. None), copyFile_error = (\<lambda>p. None)\<rparr>"

section \<open>Properties of the string primitives\<close>

lemma joinWith_empty: "joinWith [] xs = concat xs"
  by (induction "[] :: string" xs rule: joinWith.induct) simp_all

lemma joinWith_Cons_head: "joinWith sep ((c # x) # xs) = c # joinWith sep (x # xs)"
  by (cases xs) simp_all

lemma split_not_Nil: "split sep s \<noteq> []"
  by (induction sep s rule: split.induct) (simp_all add: Let_def)

text \<open>Joining the segments of a split with the separator gives the string back.\<close>

lemma split_join: "sep \<noteq> [] \<Longrightarrow> joinWith sep (split sep s) = s"
proof (induction sep s rule: split.induct)
  case (1 sep)
  show ?case by simp
next
  case (2 sep c cs)
  show ?case
  proof (cases "prefix sep (c # cs)")
    case True
    then obtain r where r: "c # cs = sep @ r" by (auto simp: prefix_def)
    then have d: "drop (length sep) (c # cs) = r" by simp
    have j: "joinWith sep (split sep r) = r"
      using 2(1) [OF _ 2(3)] True 2(3) d by simp
    obtain x xs where x: "split sep r = x # xs"
      using split_not_Nil [of sep r] by (cases "split sep r") auto
    have "split sep (c # cs) = [] # split sep r"
      using True 2(3) d by simp
    then have "joinWith sep (split sep (c # cs)) = sep @ joinWith sep (split sep r)"
      by (simp add: x)
    then show ?thesis by (simp only: j r)
  next
    case False
    obtain x xs where x: "split sep cs = x # xs"
      using split_not_Nil [of sep cs] by (cases "split sep cs") auto
    have "joinWith sep (split sep cs) = cs"
      using 2(2) False 2(3) by simp
    with x False 2(3) show ?thesis by (simp add: Let_def joinWith_Cons_head)
  qed
qed

lemma hd_split_prefix: "prefix (hd (split sep s)) s"
  by (induction sep s rule: split.induct) (simp_all add: Let_def)

text \<open>No segment of a split holds the separator.\<close>

lemma split_segments_free:
  "sep \<noteq> [] \<Longrightarrow> p \<in> set (split sep s) \<Longrightarrow> \<not> sublist sep p"
proof (induction sep s arbitrary: p rule: split.induct)
  case (1 sep)
  then show ?case by simp
next
  case (2 sep c cs)
  show ?case
  proof (cases "prefix sep (c # cs)")
    case True
    with 2(4) 2(3) have "p = [] \<or> p \<in> set (split sep (drop (length sep) (c # cs)))" by simp
    then show ?thesis
    proof
      assume "p = []"
      with 2(3) show ?thesis by simp
    next
      assume "p \<in> set (split sep (drop (length sep) (c # cs)))"
      then show ?thesis using 2(1) [OF _ 2(3)] True 2(3) by simp
    qed
  next
    case False
    obtain x xs where x: "split sep cs = x # xs"
      using split_not_Nil [of sep cs] by (cases "split sep cs") auto
    from 2(4) False x have "p = c # x \<or> p \<in> set xs" by (simp add: Let_def)
    then show ?thesis
    proof
      assume p: "p = c # x"
      have nx: "\<not> sublist sep x" using 2(2) [of x] False 2(3) x by simp
      have "prefix x cs" using hd_split_prefix [of sep cs] x by simp
      then have "prefix (c # x) (c # cs)" by simp
      then have "\<not> prefix sep (c # x)" using False prefix_order.trans by blast
      with nx p show ?thesis by (simp add: sublist_Cons_right)
    next
      assume "p \<in> set xs"
      then show ?thesis using 2(2) [of p] False 2(3) x by simp
    qed
  qed
qed

text \<open>Trimming removes white space at both ends, and nothing else.\<close>

lemma trim_decompose:
  "\<exists>u v. s = u @ trim s @ v \<and> (\<forall>c \<in> set u. isWhiteSpace c) \<and> (\<forall>c \<in> set v. isWhiteSpace c)"
proof -
  let ?t = "dropWhile isWhiteSpace s"
  have 1: "s = takeWhile isWhiteSpace s @ ?t" by simp
  have "rev ?t = takeWhile isWhiteSpace (rev ?t) @ dropWhile isWhiteSpace (rev ?t)" by simp
  then have "?t = rev (dropWhile isWhiteSpace (rev ?t)) @ rev (takeWhile isWhiteSpace (rev ?t))"
    by (metis rev_append rev_rev_ident)
  then have 2: "?t = trim s @ rev (takeWhile isWhiteSpace (rev ?t))"
    by (simp add: trim_def)
  have "s = takeWhile isWhiteSpace s @ trim s @ rev (takeWhile isWhiteSpace (rev ?t))"
    using 1 2 by metis
  moreover have "\<forall>c \<in> set (takeWhile isWhiteSpace s). isWhiteSpace c"
    by (auto dest: set_takeWhileD)
  moreover have "\<forall>c \<in> set (rev (takeWhile isWhiteSpace (rev ?t))). isWhiteSpace c"
    by (auto dest: set_takeWhileD)
  ultimately show ?thesis by blast
qed

lemma trim_ends:
  assumes "trim s \<noteq> []"
  shows "\<not> isWhiteSpace (hd (trim s)) \<and> \<not> isWhiteSpace (last (trim s))"
proof -
  let ?t = "dropWhile isWhiteSpace s"
  let ?r = "dropWhile isWhiteSpace (rev ?t)"
  have r: "?r \<noteq> []" using assms by (simp add: trim_def)
  then have "\<not> isWhiteSpace (hd ?r)" by (rule hd_dropWhile)
  then have l: "\<not> isWhiteSpace (last (trim s))"
    using r by (simp add: trim_def last_rev)
  have t: "?t \<noteq> []"
  proof
    assume "?t = []"
    then have "rev ?t = []" by (simp only: rev.simps)
    then have "?r = []" by (simp only: dropWhile.simps)
    with r show False by contradiction
  qed
  then have h: "\<not> isWhiteSpace (hd ?t)" by (rule hd_dropWhile)
  have "prefix (trim s) ?t"
  proof -
    have "rev ?t = takeWhile isWhiteSpace (rev ?t) @ ?r" by simp
    then have "?t = rev ?r @ rev (takeWhile isWhiteSpace (rev ?t))"
      by (metis rev_append rev_rev_ident)
    then show ?thesis by (simp add: trim_def prefix_def) metis
  qed
  then have "hd (trim s) = hd ?t" using assms by (auto simp: prefix_def)
  with h l show ?thesis by simp
qed

section \<open>Properties of the dates\<close>

text \<open>
  Claim C2, as the code has it.  The date field is preferred to \<^verbatim>\<open>published_at\<close>; a
  field counts when it is a non-empty string.  The chosen string is handed to the
  \<^verbatim>\<open>Date\<close> constructor: a string that is a date gives its time, a string that is not
  gives an invalid date.  The current time is the result when neither field counts, and
  otherwise only when the chosen string is the current time itself.
\<close>

theorem articleDate_resolution:
  "(\<forall>s. date a = Str s \<and> s \<noteq> [] \<longrightarrow> articleDate rt a = newDate rt s)
   \<and> (\<forall>s. \<not> truthy (date a) \<and> published_at a = Str s \<and> s \<noteq> []
          \<longrightarrow> articleDate rt a = newDate rt s)
   \<and> (\<not> truthy (date a) \<and> \<not> truthy (published_at a)
          \<longrightarrow> articleDate rt a = TimeValue (Date_now rt))
   \<and> (\<forall>s. Date_parse rt s = None \<longrightarrow> newDate rt s = InvalidDate)
   \<and> (\<forall>s t. Date_parse rt s = Some t \<longrightarrow> newDate rt s = TimeValue t)
   \<and> (articleDate rt a = TimeValue (Date_now rt))
       = ((\<not> truthy (date a) \<and> \<not> truthy (published_at a))
          \<or> (\<exists>s. js_or (date a) (published_at a) = Str s \<and> s \<noteq> []
                \<and> Date_parse rt s = Some (Date_now rt)))"
  by (cases "date a"; cases "published_at a")
     (auto simp: articleDate_def newDateOr_def newDate_def js_or_def truthy_def
           split: option.splits)

theorem articleDate_resolution_witness:
  "date unparseable_article = Str ''not a date''
   \<and> Date_parse demo_runtime ''not a date'' = None
   \<and> articleDate demo_runtime unparseable_article = InvalidDate
   \<and> \<not> truthy (date published_article)
   \<and> published_at published_article = Str ''2024-03-01''
   \<and> Date_parse demo_runtime ''2024-03-01'' = Some 1709251200000
   \<and> articleDate demo_runtime published_article = TimeValue 1709251200000
   \<and> \<not> truthy (date undated_article) \<and> \<not> truthy (published_at undated_article)
   \<and> articleDate demo_runtime undated_article = TimeValue (Date_now demo_runtime)
   \<and> date jan_article = Str ''2024-01-01''
   \<and> articleDate demo_runtime jan_article = TimeValue 1704067200000"
  using articleDate_resolution [of unparseable_article demo_runtime]
    articleDate_resolution [of published_article demo_runtime]
    articleDate_resolution [of undated_article demo_runtime]
    articleDate_resolution [of jan_article demo_runtime]
  by (simp add: unparseable_article_def published_article_def undated_article_def
      jan_article_def no_article_def demo_runtime_def demo_Date_parse_def truthy_def)

text \<open>
  Claim C2, as it is written, fails: a date field that is present and is not a date gives
  an invalid date, which the feed prints as \<^verbatim>\<open>Invalid Date\<close>, and not the current time.
\<close>

theorem articleDate_unparseable_invalid:
  "date unparseable_article = Str ''not a date''
   \<and> Date_parse demo_runtime ''not a date'' = None
   \<and> articleDate demo_runtime unparseable_article = InvalidDate
   \<and> articleDate demo_runtime unparseable_article \<noteq> TimeValue (Date_now demo_runtime)
   \<and> utcString demo_runtime (articleDate demo_runtime unparseable_article) = ''Invalid Date''"
  by (simp add: unparseable_article_def no_article_def demo_runtime_def demo_Date_parse_def
      articleDate_def newDateOr_def newDate_def js_or_def truthy_def utcString_def)

section \<open>Properties of extractExcerpt\<close>

lemma extractExcerptLen_bound: "length (extractExcerptLen c n) \<le> n + 3"
  by (cases c) (auto simp: extractExcerptLen_def Let_def)

lemma stripTags_plain: "CHR ''<'' \<notin> set s \<Longrightarrow> stripTags s = s"
  by (induction s) auto

lemma trim_letters: "trim (replicate n (CHR ''a'')) = replicate n (CHR ''a'')"
  by (cases n) (simp_all add: trim_def isWhiteSpace_def del: replicate_Suc)

text \<open>
  Claim C5, as the code has it.  The excerpt has at most 153 characters.  The code appends
  the ellipsis exactly when the content, with its tags stripped and then trimmed, is
  longer than 150 characters: the excerpt is then the first 150 characters of that text
  and the three dots.  Otherwise the excerpt is that text itself.
\<close>

theorem extractExcerpt_length_and_ellipsis:
  "length (extractExcerpt c) \<le> 153
   \<and> (\<forall>s. c = Str s
        \<longrightarrow> (extractExcerpt c = take 150 (trim (stripTags s)) @ ''...'')
            = (150 < length (trim (stripTags s))))
   \<and> (\<forall>s. c = Str s \<and> length (trim (stripTags s)) \<le> 150
        \<longrightarrow> extractExcerpt c = trim (stripTags s))
   \<and> (\<not> truthy c \<longrightarrow> extractExcerpt c = [])"
proof -
  have 1: "length (extractExcerpt c) \<le> 153"
    using extractExcerptLen_bound [of c 150] by (simp add: extractExcerpt_def)
  have 2: "(extractExcerpt (Str s) = take 150 (trim (stripTags s)) @ ''...'')
            = (150 < length (trim (stripTags s)))" for s
  proof (cases "150 < length (trim (stripTags s))")
    case True
    then have "s \<noteq> []" by (auto simp: trim_def)
    with True show ?thesis by (simp add: extractExcerpt_def extractExcerptLen_def Let_def)
  next
    case False
    have "length (take 150 (trim (stripTags s)) @ ''...'') \<noteq> length (trim (stripTags s))"
      using False by simp
    then have "take 150 (trim (stripTags s)) @ ''...'' \<noteq> trim (stripTags s)"
      by metis
    moreover have "extractExcerpt (Str s) = trim (stripTags s)"
      using False by (auto simp: extractExcerpt_def extractExcerptLen_def Let_def trim_def)
    ultimately show ?thesis using False by simp
  qed
  have 3: "length (trim (stripTags s)) \<le> 150 \<Longrightarrow> extractExcerpt (Str s) = trim (stripTags s)"
    for s
    by (auto simp: extractExcerpt_def extractExcerptLen_def Let_def trim_def)
  have 4: "\<not> truthy c \<longrightarrow> extractExcerpt c = []"
    by (cases c) (auto simp: extractExcerpt_def extractExcerptLen_def truthy_def)
  from 1 2 3 4 show ?thesis by blast
qed

theorem extractExcerpt_length_and_ellipsis_witness:
  "150 < length (trim (stripTags long_text))
   \<and> extractExcerpt (Str long_text) = replicate 150 (CHR ''a'') @ ''...''
   \<and> length (extractExcerpt (Str long_text)) = 153
   \<and> length (trim (stripTags dotted_text)) \<le> 150
   \<and> extractExcerpt (Str dotted_text) = ''Wait for it...''
   \<and> \<not> truthy Null \<and> extractExcerpt Null = []"
proof -
  have s: "stripTags long_text = long_text"
    by (rule stripTags_plain) (simp add: long_text_def)
  have t: "trim (stripTags long_text) = replicate 200 (CHR ''a'')"
    unfolding s by (simp add: long_text_def trim_letters)
  have d: "trim (stripTags dotted_text) = ''Wait for it...''"
    by (simp add: dotted_text_def trim_def isWhiteSpace_def)
  note a = extractExcerpt_length_and_ellipsis [of "Str long_text"]
  note b = extractExcerpt_length_and_ellipsis [of "Str dotted_text"]
  note c = extractExcerpt_length_and_ellipsis [of Null]
  have 1: "150 < length (trim (stripTags long_text))" by (simp add: t)
  with a have "extractExcerpt (Str long_text) = take 150 (trim (stripTags long_text)) @ ''...''"
    by blast
  then have 2: "extractExcerpt (Str long_text) = replicate 150 (CHR ''a'') @ ''...''"
    by (simp add: t)
  have 3: "length (extractExcerpt (Str long_text)) = 153" by (simp add: 2)
  have 4: "length (trim (stripTags dotted_text)) \<le> 150" by (simp add: d)
  with b have 5: "extractExcerpt (Str dotted_text) = ''Wait for it...''"
    using d by metis
  have 6: "\<not> truthy Null" by (simp add: truthy_def)
  with c have 7: "extractExcerpt Null = []" by blast
  from 1 2 3 4 5 6 7 show ?thesis by (intro conjI)
qed

text \<open>
  Claim C5, as it is written, fails in both directions.  A short content that ends in
  three dots gives an excerpt with the ellipsis suffix and was not over 150 characters.
  A content of 150 letters and a final space is 151 characters long once its tags are
  stripped, and its excerpt, the 150 letters, has no ellipsis: the text is trimmed before
  its length is compared.
\<close>

theorem extractExcerpt_ellipsis_not_iff:
  "length (stripTags dotted_text) \<le> 150
   \<and> extractExcerpt (Str dotted_text) = ''Wait for it...''
   \<and> suffix ''...'' (extractExcerpt (Str dotted_text))
   \<and> length (stripTags padded_text) = 151
   \<and> extractExcerpt (Str padded_text) = replicate 150 (CHR ''a'')
   \<and> \<not> suffix ''...'' (extractExcerpt (Str padded_text))"
proof -
  have d: "trim (stripTags dotted_text) = ''Wait for it...''" "stripTags dotted_text = dotted_text"
    by (simp_all add: dotted_text_def trim_def isWhiteSpace_def)
  have 1: "length (stripTags dotted_text) \<le> 150"
    by (simp add: d) (simp add: dotted_text_def)
  have 2: "extractExcerpt (Str dotted_text) = ''Wait for it...''"
    using d by (simp add: extractExcerpt_def extractExcerptLen_def dotted_text_def)
  have 3: "suffix ''...'' (extractExcerpt (Str dotted_text))"
    unfolding 2 by (simp add: suffix_def)
  have p: "stripTags padded_text = padded_text"
    by (rule stripTags_plain) (simp add: padded_text_def)
  have 4: "length (stripTags padded_text) = 151"
    unfolding p by (simp add: padded_text_def)
  have "trim padded_text = replicate 150 (CHR ''a'')"
    using trim_letters [of 150]
    by (simp add: padded_text_def trim_def isWhiteSpace_def dropWhile_append)
  then have 5: "extractExcerpt (Str padded_text) = replicate 150 (CHR ''a'')"
    by (simp add: extractExcerpt_def extractExcerptLen_def p) (simp add: padded_text_def)
  have 6: "\<not> suffix ''...'' (extractExcerpt (Str padded_text))"
  proof
    assume "suffix ''...'' (extractExcerpt (Str padded_text))"
    then obtain zs where "replicate 150 (CHR ''a'') = zs @ ''...''"
      unfolding 5 by (auto simp: suffix_def)
    then have "last (replicate 150 (CHR ''a'')) = last (zs @ ''...'')" by simp
    then show False by simp
  qed
  from 1 2 3 4 5 6 show ?thesis by (intro conjI)
qed

section \<open>Properties of formatContent\<close>

lemma paragraphs_start: "ps \<noteq> [] \<Longrightarrow> \<exists>r. concat (map wrapParagraph ps) = CHR ''<'' # r"
  by (cases ps) (simp_all add: wrapParagraph_def)

text \<open>
  Claim C4, as the code has it.  Absent and empty content give the empty string.  Content
  without \<^verbatim>\<open><\<close> is split on the double newline, each segment trimmed and wrapped in a
  paragraph tag, and the paragraphs concatenated; a \<^verbatim>\<open>>\<close> does not count.  Content with
  a \<^verbatim>\<open><\<close> is returned unchanged.
\<close>

theorem formatContent_by_left_angle:
  "formatContent Undefined = [] \<and> formatContent Null = [] \<and> formatContent (Str []) = []
   \<and> (s \<noteq> [] \<and> CHR ''<'' \<notin> set s
        \<longrightarrow> formatContent (Str s)
            = concat (map (\<lambda>p. ''<p>'' @ trim p @ ''</p>'') (split ''\<newline>\<newline>'' s)))
   \<and> (CHR ''<'' \<in> set s \<longrightarrow> formatContent (Str s) = s)"
proof -
  have "wrapParagraph = (\<lambda>p. ''<p>'' @ trim p @ ''</p>'')"
    by (rule ext) (simp add: wrapParagraph_def)
  then show ?thesis by (auto simp: formatContent_def)
qed

theorem formatContent_by_left_angle_witness:
  "''Hello\<newline>\<newline>World'' \<noteq> [] \<and> CHR ''<'' \<notin> set ''Hello\<newline>\<newline>World''
   \<and> formatContent (Str ''Hello\<newline>\<newline>World'') = ''<p>Hello</p><p>World</p>''
   \<and> CHR ''<'' \<in> set ''<p>Hi</p>''
   \<and> formatContent (Str ''<p>Hi</p>'') = ''<p>Hi</p>''"
  using formatContent_by_left_angle [of "''Hello\<newline>\<newline>World''"]
    formatContent_by_left_angle [of "''<p>Hi</p>''"]
  by (simp add: trim_def isWhiteSpace_def)

text \<open>
  Claim C4, as it is written, fails: the content \<^verbatim>\<open>a > b\<close> holds an angle bracket and
  is not returned unchanged.
\<close>

theorem formatContent_right_angle_wrapped:
  "CHR ''>'' \<in> set ''a > b''
   \<and> formatContent (Str ''a > b'') = ''<p>a > b</p>''
   \<and> formatContent (Str ''a > b'') \<noteq> ''a > b''"
  by (simp add: formatContent_def wrapParagraph_def trim_def isWhiteSpace_def)

lemma formatContent_empty_or_markup:
  "formatContent c = [] \<or> CHR ''<'' \<in> set (formatContent c)"
proof (cases c)
  case (Str s)
  show ?thesis
  proof (cases "s = [] \<or> CHR ''<'' \<in> set s")
    case True
    with Str show ?thesis by (auto simp: formatContent_def)
  next
    case False
    obtain r where "concat (map wrapParagraph (split ''\<newline>\<newline>'' s)) = CHR ''<'' # r"
      using paragraphs_start [OF split_not_Nil] by blast
    with False Str show ?thesis by (simp add: formatContent_def)
  qed
qed (simp_all add: formatContent_def)

text \<open>
  Claim C10.  Formatting is idempotent: formatting the output of \<^verbatim>\<open>formatContent\<close> again
  returns it unchanged, for absent, empty, marked-up and plain content alike.  The output
  is empty or holds a \<^verbatim>\<open><\<close> (the output for plain text begins with a paragraph tag),
  so the second pass returns the empty string or takes the pass-through branch.
\<close>

theorem formatContent_idempotent:
  "formatContent (Str (formatContent c)) = formatContent c
   \<and> (formatContent c = [] \<or> CHR ''<'' \<in> set (formatContent c))
   \<and> formatContent (Str []) = []"
proof -
  have e: "formatContent (Str []) = []"
    by (simp add: formatContent_def)
  have "formatContent (Str (formatContent c)) = formatContent c"
    using formatContent_empty_or_markup [of c]
  proof
    assume "formatContent c = []"
    then show ?thesis by (simp add: e)
  next
    assume "CHR ''<'' \<in> set (formatContent c)"
    then show ?thesis by (auto simp: formatContent_def [of "Str (formatContent c)"])
  qed
  with formatContent_empty_or_markup [of c] e show ?thesis by blast
qed

section \<open>Properties of getArticleSlug\<close>

lemma hyphen_not_alnum [simp]: "\<not> alnum (CHR ''-'')"
  by (simp add: alnum_def)

lemma dropWhile_alnum_head:
  "dropWhile (\<lambda>x. \<not> alnum x) cs = []
   \<or> (\<exists>d ds. dropWhile (\<lambda>x. \<not> alnum x) cs = d # ds \<and> alnum d)"
  by (induction cs) auto

lemma replaceNonAlnum_dropWhile_head:
  "replaceNonAlnum (dropWhile (\<lambda>x. \<not> alnum x) cs) = []
   \<or> (\<exists>d t. replaceNonAlnum (dropWhile (\<lambda>x. \<not> alnum x) cs) = d # t \<and> alnum d)"
  using dropWhile_alnum_head [of cs]
  by (elim disjE exE conjE) (simp_all del: dropWhile_eq_Nil_conv)

lemma collapsed_Cons_alnum: "alnum c \<Longrightarrow> collapsed cs \<Longrightarrow> collapsed (c # cs)"
  by (cases cs) auto

lemma collapsed_Cons_hyphen:
  "h = [] \<or> (\<exists>d t. h = d # t \<and> alnum d) \<Longrightarrow> collapsed h \<Longrightarrow> collapsed (CHR ''-'' # h)"
  by auto

lemma collapsed_tl: "collapsed (c # cs) \<Longrightarrow> collapsed cs"
  by (cases cs) auto

text \<open>After the first replacement no two hyphens are adjacent.\<close>

lemma collapsed_replaceNonAlnum: "collapsed (replaceNonAlnum s)"
proof (induction s rule: replaceNonAlnum.induct)
  case 1
  show ?case by simp
next
  case (2 c cs)
  show ?case
  proof (cases "alnum c")
    case True
    with 2 show ?thesis by (simp add: collapsed_Cons_alnum)
  next
    case False
    then have eq: "replaceNonAlnum (c # cs)
        = CHR ''-'' # replaceNonAlnum (dropWhile (\<lambda>x. \<not> alnum x) cs)"
      by simp
    have "collapsed (replaceNonAlnum (dropWhile (\<lambda>x. \<not> alnum x) cs))"
      using 2 False by simp
    then show ?thesis
      unfolding eq by (rule collapsed_Cons_hyphen [OF replaceNonAlnum_dropWhile_head])
  qed
qed

lemma dropLastHyphen_Cons_alnum: "alnum c \<Longrightarrow> dropLastHyphen (c # cs) = c # dropLastHyphen cs"
  by (auto simp: dropLastHyphen_def)

lemma slug_tail_dropLastHyphen: "collapsed cs \<Longrightarrow> slug_tail (dropLastHyphen cs)"
proof (induction cs rule: collapsed.induct)
  case 1
  show ?case by (simp add: dropLastHyphen_def)
next
  case (2 c)
  then show ?case by (auto simp: dropLastHyphen_def)
next
  case (3 c d cs)
  then have rest: "slug_tail (dropLastHyphen (d # cs))" by simp
  show ?case
  proof (cases "alnum c")
    case True
    with rest show ?thesis by (simp add: dropLastHyphen_Cons_alnum)
  next
    case False
    with 3 have c: "c = CHR ''-''" and d: "alnum d" by auto
    have "dropLastHyphen (c # d # cs) = c # d # dropLastHyphen cs"
      using d by (auto simp: dropLastHyphen_def)
    moreover have "slug_tail (dropLastHyphen cs)"
      using rest d by (simp add: dropLastHyphen_Cons_alnum)
    ultimately show ?thesis using c d by simp
  qed
qed

lemma trimHyphens_collapsed:
  assumes "collapsed s"
  shows "trimHyphens s = [] \<or> slug_pattern (trimHyphens s)"
proof (cases s)
  case Nil
  then show ?thesis by (simp add: trimHyphens_def)
next
  case (Cons c cs)
  show ?thesis
  proof (cases "c = CHR ''-''")
    case True
    show ?thesis
    proof (cases cs)
      case Nil
      with Cons True show ?thesis by (simp add: trimHyphens_def)
    next
      case (Cons d ds)
      with \<open>s = c # cs\<close> True assms have d: "alnum d" and col: "collapsed (d # ds)" by auto
      have "trimHyphens s = dropLastHyphen (d # ds)"
        using \<open>s = c # cs\<close> Cons True by (simp add: trimHyphens_def dropLastHyphen_def)
      also have "\<dots> = d # dropLastHyphen ds" using d by (rule dropLastHyphen_Cons_alnum)
      finally have eq: "trimHyphens s = d # dropLastHyphen ds" .
      have "slug_tail (dropLastHyphen ds)"
        using slug_tail_dropLastHyphen [OF collapsed_tl [OF col]] .
      with eq d show ?thesis by simp
    qed
  next
    case False
    with Cons assms have c: "alnum c" by (cases cs) auto
    have "trimHyphens s = dropLastHyphen (c # cs)"
      using Cons False by (simp add: trimHyphens_def dropLastHyphen_def)
    also have "\<dots> = c # dropLastHyphen cs" using c by (rule dropLastHyphen_Cons_alnum)
    finally have eq: "trimHyphens s = c # dropLastHyphen cs" .
    have "slug_tail (dropLastHyphen cs)"
      using slug_tail_dropLastHyphen collapsed_tl assms Cons by blast
    with eq c show ?thesis by simp
  qed
qed

text \<open>
  What holds for every record: the slug matches the pattern or is empty.  The placeholder
  \<^verbatim>\<open>untitled\<close> matches the pattern itself.
\<close>

lemma getArticleSlug_empty_or_pattern:
  "getArticleSlug a = [] \<or> slug_pattern (getArticleSlug a)"
  unfolding getArticleSlug_def by (rule trimHyphens_collapsed [OF collapsed_replaceNonAlnum])

text \<open>
  Claim C3.  The slug of every record is a non-empty string that matches
  \<^verbatim>\<open>[a-z0-9]+(-[a-z0-9]+)*\<close> or is the placeholder, also for a title of
  non-alphanumeric characters only.  The code does not do this: for the record whose only
  field is the title \<^verbatim>\<open>!!!\<close> the title is truthy, so the placeholder is not used, the
  first replacement gives one hyphen and the second removes it.  The slug is the empty
  string, which is neither a match of the pattern nor the placeholder.
\<close>

theorem getArticleSlug_punctuation_title:
  "title punctuation_article = Str ''!!!''
   \<and> getArticleSlug punctuation_article = []
   \<and> \<not> slug_pattern (getArticleSlug punctuation_article)
   \<and> getArticleSlug punctuation_article \<noteq> ''untitled''"
  by (simp add: punctuation_article_def getArticleSlug_def no_article_def js_or_def truthy_def
      or_string_def toLowerCase_def lower_char_def alnum_def trimHyphens_def)

lemma lower_char_alnum: "alnum c \<Longrightarrow> lower_char c = c"
  by (auto simp: alnum_def lower_char_def Let_def)

lemma lower_char_hyphen: "lower_char (CHR ''-'') = CHR ''-''"
  by (simp add: lower_char_def)

lemma slug_tail_chars: "slug_tail t \<Longrightarrow> \<forall>c \<in> set t. alnum c \<or> c = CHR ''-''"
  by (induction t rule: slug_tail.induct) (auto split: if_splits list.splits)

lemma toLowerCase_slug_tail: "slug_tail t \<Longrightarrow> toLowerCase t = t"
  unfolding toLowerCase_def
  by (rule map_idI) (use slug_tail_chars lower_char_alnum lower_char_hyphen in blast)

lemma replaceNonAlnum_slug_tail: "slug_tail t \<Longrightarrow> replaceNonAlnum t = t"
  by (induction t rule: slug_tail.induct) (auto split: if_splits list.splits)

lemma slug_tail_last: "slug_tail t \<Longrightarrow> t \<noteq> [] \<Longrightarrow> alnum (last t)"
  by (induction t rule: slug_tail.induct) (auto split: if_splits list.splits)

lemma slug_pattern_tail: "slug_pattern t \<Longrightarrow> slug_tail t"
  by (cases t) auto

lemma trimHyphens_slug_pattern: "slug_pattern t \<Longrightarrow> trimHyphens t = t"
proof (cases t)
  case (Cons c cs)
  assume p: "slug_pattern t"
  with Cons have c: "alnum c" by simp
  have "alnum (last t)" using slug_tail_last [OF slug_pattern_tail [OF p]] Cons by simp
  then have "last t \<noteq> CHR ''-''" by auto
  with c Cons show ?thesis by (auto simp: trimHyphens_def)
qed simp

text \<open>A string that matches the pattern is a fixed point of the three string operations.\<close>

lemma slug_fixed_point:
  "slug_pattern t \<Longrightarrow> trimHyphens (replaceNonAlnum (toLowerCase t)) = t"
  by (simp add: toLowerCase_slug_tail replaceNonAlnum_slug_tail trimHyphens_slug_pattern
      slug_pattern_tail)

lemma slug_normalise_twice:
  "trimHyphens (replaceNonAlnum (toLowerCase (getArticleSlug a))) = getArticleSlug a"
proof (cases "getArticleSlug a = []")
  case True
  then show ?thesis by (simp add: toLowerCase_def trimHyphens_def)
next
  case False
  then have "slug_pattern (getArticleSlug a)"
    using getArticleSlug_empty_or_pattern [of a] by simp
  then show ?thesis by (rule slug_fixed_point)
qed

text \<open>A slug that is not empty is derived again from the record that carries it.\<close>

lemma getArticleSlug_again:
  assumes "getArticleSlug a \<noteq> []"
  shows "getArticleSlug (a\<lparr>slug := Str (getArticleSlug a)\<rparr>) = getArticleSlug a"
proof -
  have "getArticleSlug (a\<lparr>slug := Str (getArticleSlug a)\<rparr>)
      = trimHyphens (replaceNonAlnum (toLowerCase (getArticleSlug a)))"
    using assms
    by (simp add: getArticleSlug_def [of "a\<lparr>slug := Str (getArticleSlug a)\<rparr>"]
        js_or_def truthy_def or_string_def)
  then show ?thesis by (simp add: slug_normalise_twice)
qed

text \<open>
  Claim C8.  Deriving the slug is a function of the record, and deriving it again from a
  record whose slug field is the slug derived before gives the same slug.  The second
  part fails where the derived slug is empty: the empty slug field is falsy, so the next
  derivation falls through to the other fields or to the placeholder.  For the record
  with the title \<^verbatim>\<open>!!!\<close> the slug is empty; the record whose slug field is that slug
  gives \<^verbatim>\<open>untitled\<close>.
\<close>

theorem getArticleSlug_rederive_empty:
  "getArticleSlug punctuation_article = []
   \<and> getArticleSlug (no_article\<lparr>slug := Str (getArticleSlug punctuation_article)\<rparr>) = ''untitled''
   \<and> getArticleSlug (no_article\<lparr>slug := Str ''!!!'', a_id := Str ''abc''\<rparr>) = []
   \<and> getArticleSlug (no_article\<lparr>slug := Str [], a_id := Str ''abc''\<rparr>) = ''abc''"
  by (simp add: punctuation_article_def getArticleSlug_def no_article_def js_or_def truthy_def
      or_string_def toLowerCase_def lower_char_def alnum_def trimHyphens_def)

section \<open>Properties of the feed\<close>

lemma countItems_plain: "CHR ''<'' \<notin> set u \<Longrightarrow> countItems (u @ r) = countItems r"
  by (induction u) auto

lemma slug_no_left_angle: "CHR ''<'' \<notin> set (getArticleSlug a)"
proof (cases "getArticleSlug a = []")
  case True
  then show ?thesis by simp
next
  case False
  then have "slug_tail (getArticleSlug a)"
    using getArticleSlug_empty_or_pattern [of a] slug_pattern_tail by blast
  then have "\<forall>c \<in> set (getArticleSlug a). alnum c \<or> c = CHR ''-''"
    by (rule slug_tail_chars)
  moreover have "\<not> alnum (CHR ''<'')" by (simp add: alnum_def)
  ultimately show ?thesis by auto
qed

text \<open>The text of one item has the opening tag once, where the template has it.\<close>

lemma countItems_rssItem:
  assumes "plainItem rt a"
  shows "countItems (rssItem rt a @ r) = Suc (countItems r)"
  using assms slug_no_left_angle [of a]
  by (simp add: rssItem_def plainItem_def Let_def countItems_plain)

lemma countItems_items:
  "\<forall>a \<in> set as. plainItem rt a
   \<Longrightarrow> countItems (concat (map (rssItem rt) as) @ r) = length as + countItems r"
  by (induction as) (simp_all add: countItems_rssItem)

lemma countItems_rssHead:
  "CHR ''<'' \<notin> set (toUTCString rt (Date_now rt))
   \<Longrightarrow> countItems (rssHead rt @ r) = countItems r"
  by (simp add: rssHead_def countItems_plain)

lemma countItems_rssTail: "countItems rssTail = 0"
  by (simp add: rssTail_def)

lemma countItems_getRSSFeed:
  assumes "CHR ''<'' \<notin> set (toUTCString rt (Date_now rt))"
    and "\<forall>a \<in> set (take 20 articles). plainItem rt a"
  shows "countItems (getRSSFeed rt articles) = min 20 (length articles)"
proof -
  have "countItems (getRSSFeed rt articles)
      = countItems (concat (map (rssItem rt) (take 20 articles)) @ rssTail)"
    using assms(1) by (simp add: getRSSFeed_def rssItems_def countItems_rssHead)
  also have "\<dots> = length (take 20 articles) + countItems rssTail"
    using assms(2) by (rule countItems_items)
  finally show ?thesis by (simp add: countItems_rssTail min_def)
qed

text \<open>
  What holds for every collection: the feed is its head, the renderings of the first
  \<open>min 20 n\<close> articles in collection order, and its tail.
\<close>

lemma getRSSFeed_first_20:
  "getRSSFeed rt articles = rssHead rt @ concat (map (rssItem rt) (take 20 articles)) @ rssTail
   \<and> rssItems rt articles = map (rssItem rt) (take (min 20 (length articles)) articles)
   \<and> length (rssItems rt articles) = min 20 (length articles)"
  by (simp add: getRSSFeed_def rssItems_def min_def)

text \<open>
  The rendering of the record whose title closes its item has the opening tag twice: once
  from the template and once from the title.
\<close>

lemma countItems_breakout_item:
  assumes "CHR ''<'' \<notin> set (toUTCString rt (Date_now rt))"
  shows "countItems (rssItem rt breakout_article @ r) = Suc (Suc (countItems r))"
  using assms slug_no_left_angle [of breakout_article]
  by (simp add: rssItem_def Let_def countItems_plain breakout_article_def no_article_def
      toString_def or_string_def extractExcerpt_def extractExcerptLen_def utcString_def
      articleDate_def newDateOr_def js_or_def truthy_def)

lemma countItems_breakout_items:
  assumes "CHR ''<'' \<notin> set (toUTCString rt (Date_now rt))"
  shows "countItems (concat (replicate n (rssItem rt breakout_article)) @ r)
    = 2 * n + countItems r"
  by (induction n) (simp_all add: countItems_breakout_item [OF assms])

text \<open>
  Claim C7.  The rendered feed holds at most 20 item elements, and they are the first
  \<open>min 20 n\<close> articles of the collection in collection order; a collection of 25 gives
  exactly 20.  The code takes the first 20 articles, but it interpolates each title as it
  is, so the number of item elements in the feed is not the number of articles rendered.
  The title \<^verbatim>\<open>]]></title></item><item><title><![CDATA[x\<close> ends its section, its title
  element and its item, and opens a second item: one such article gives a feed with two
  item elements, and 25 of them give 40, not 20.
\<close>

theorem getRSSFeed_breakout_items:
  "toString (title breakout_article) = '']]></title></item><item><title><![CDATA[x''
   \<and> take 96 (rssItem demo_runtime breakout_article)
       = ''\<newline>        <item>\<newline>            <title><![CDATA[]]></title></item><item><title><![CDATA[x]]></title>''
   \<and> countItems (getRSSFeed demo_runtime [breakout_article]) = 2
   \<and> length (replicate 25 breakout_article) = 25
   \<and> length (rssItems demo_runtime (replicate 25 breakout_article)) = 20
   \<and> countItems (getRSSFeed demo_runtime (replicate 25 breakout_article)) = 40"
proof -
  have d: "CHR ''<'' \<notin> set (toUTCString demo_runtime (Date_now demo_runtime))"
    by (simp add: demo_runtime_def demo_toUTCString_def)
  have 1: "toString (title breakout_article) = '']]></title></item><item><title><![CDATA[x''"
    by (simp add: breakout_article_def no_article_def toString_def)
  have 2: "take 96 (rssItem demo_runtime breakout_article)
      = ''\<newline>        <item>\<newline>            <title><![CDATA[]]></title></item><item><title><![CDATA[x]]></title>''"
    by (simp add: rssItem_def Let_def breakout_article_def no_article_def toString_def)
  have 3: "length (rssItems demo_runtime (replicate 25 breakout_article)) = 20"
    by (simp add: rssItems_def)
  have c: "countItems (getRSSFeed demo_runtime (replicate n breakout_article)) = 2 * min 20 n"
    for n
  proof -
    have "countItems (getRSSFeed demo_runtime (replicate n breakout_article))
        = countItems
            (concat (replicate (min 20 n) (rssItem demo_runtime breakout_article)) @ rssTail)"
      using d by (simp add: getRSSFeed_def rssItems_def countItems_rssHead min.commute)
    then show ?thesis
      by (simp add: countItems_breakout_items [OF d] countItems_rssTail)
  qed
  from c [of 1] have 4: "countItems (getRSSFeed demo_runtime [breakout_article]) = 2"
    by simp
  from c [of 25]
  have 5: "countItems (getRSSFeed demo_runtime (replicate 25 breakout_article)) = 40"
    by simp
  from 1 2 3 4 5 show ?thesis by simp
qed

section \<open>Properties of the CDATA sections of the feed\<close>

lemma cdataBody_no_gt:
  "CHR ''>'' \<notin> set t \<Longrightarrow> cdataBody (t @ CHR '']'' # CHR '']'' # CHR ''>'' # r) = Some t"
proof (induction t)
  case Nil
  show ?case by simp
next
  case (Cons c t)
  then have "\<not> prefix '']]>'' ((c # t) @ CHR '']'' # CHR '']'' # CHR ''>'' # r)"
    by (cases t; cases "tl t") (auto simp: prefix_Cons)
  with Cons show ?case by simp
qed

lemma readCDATA_section:
  "CHR ''>'' \<notin> set t \<Longrightarrow> readCDATA (''<![CDATA['' @ t @ '']]>'' @ r) = Some (t, r)"
  by (simp add: readCDATA_def cdataBody_no_gt)

lemma titleSection_shape:
  "\<exists>r. titleSection rt a = ''<![CDATA['' @ toString (title a) @ '']]>'' @ ''</title>'' @ r"
  by (simp add: titleSection_def rssItem_def Let_def)

text \<open>A title without \<^verbatim>\<open>>\<close> is read back as it is, and the title element closes after it.\<close>

lemma readCDATA_title_plain:
  assumes "CHR ''>'' \<notin> set (toString (title a))"
  shows "\<exists>r. readCDATA (titleSection rt a) = Some (toString (title a), ''</title>'' @ r)"
proof -
  obtain r where
    "titleSection rt a = ''<![CDATA['' @ toString (title a) @ '']]>'' @ ''</title>'' @ r"
    using titleSection_shape by blast
  then have "readCDATA (titleSection rt a) = Some (toString (title a), ''</title>'' @ r)"
    using readCDATA_section [OF assms] by simp
  then show ?thesis by blast
qed

text \<open>
  Claim C9.  The CDATA wrapping of title and description keeps markup-significant
  characters in them, the sequence \<^verbatim>\<open>]]>\<close> included, from breaking the structure of the
  feed.  The code interpolates the title as it is: for the title \<^verbatim>\<open>a]]><x>\<close> the
  section the reader sees holds only \<^verbatim>\<open>a\<close>, and the text after the section is
  \<^verbatim>\<open><x>]]></title>\<close>: an element the title brought in, and a stray terminator, inside
  the title element.
\<close>

theorem rssItem_title_ends_section:
  "toString (title cdata_title_article) = ''a]]><x>''
   \<and> map_option fst (readCDATA (titleSection rt cdata_title_article)) = Some ''a''
   \<and> map_option (take 14 \<circ> snd) (readCDATA (titleSection rt cdata_title_article))
       = Some ''<x>]]></title>''"
  by (simp add: cdata_title_article_def no_article_def toString_def titleSection_def
      rssItem_def readCDATA_def Let_def)

section \<open>Properties of loadArticles\<close>

text \<open>
  Where both dates are valid the comparator orders by the negated time, and the sort is
  the library's stable insertion sort by that key.
\<close>

lemma sortCompare_valid:
  assumes "sortDate rt x \<noteq> InvalidDate" and "sortDate rt y \<noteq> InvalidDate"
  shows "(sortCompare (compareArticles rt) x y \<le> 0) = (sortKey rt x \<le> sortKey rt y)"
  using assms
  by (cases "sortDate rt x"; cases "sortDate rt y")
     (simp_all add: sortCompare_def compareArticles_def dateMinus_def sortKey_def)

lemma insertBy_insort_key:
  assumes "sortDate rt x \<noteq> InvalidDate" and "\<forall>y \<in> set ys. sortDate rt y \<noteq> InvalidDate"
  shows "insertBy (compareArticles rt) x ys = insort_key (sortKey rt) x ys"
  using assms by (induction ys) (simp_all add: sortCompare_valid)

lemma array_sort_sort_key:
  assumes "\<forall>a \<in> set xs. sortDate rt a \<noteq> InvalidDate"
  shows "array_sort (compareArticles rt) xs = sort_key (sortKey rt) xs"
  using assms
proof (induction xs)
  case Nil
  show ?case by (simp add: array_sort_def)
next
  case (Cons x xs)
  then have ih: "array_sort (compareArticles rt) xs = sort_key (sortKey rt) xs" by simp
  have "array_sort (compareArticles rt) (x # xs)
      = insertBy (compareArticles rt) x (array_sort (compareArticles rt) xs)"
    by (simp add: array_sort_def)
  also have "\<dots> = insort_key (sortKey rt) x (sort_key (sortKey rt) xs)"
    unfolding ih using Cons.prems by (intro insertBy_insort_key) simp_all
  finally show ?case by (simp add: sort_key_def)
qed

lemma notOlder_sortKey:
  assumes "sortDate rt a \<noteq> InvalidDate" and "sortDate rt b \<noteq> InvalidDate"
  shows "notOlder (sortDate rt a) (sortDate rt b) = (sortKey rt a \<le> sortKey rt b)"
  using assms
  by (cases "sortDate rt a"; cases "sortDate rt b")
     (simp_all add: notOlder_def dateMinus_def sortKey_def)

lemma sortDate_missing:
  "\<not> truthy (date a) \<Longrightarrow> \<not> truthy (published_at a) \<Longrightarrow> sortDate rt a = TimeValue 0"
  by (cases "date a"; cases "published_at a")
     (auto simp: sortDate_def newDateOr_def js_or_def truthy_def)

lemma sortDate_eq_sortKey:
  "sortDate rt a \<noteq> InvalidDate \<Longrightarrow> (sortDate rt a = TimeValue t) = (sortKey rt a = - t)"
  by (cases "sortDate rt a") (simp_all add: sortKey_def)

text \<open>
  Claim C6, as the code has it.  When every timestamp that is present is a date, the
  loaded collection holds the records of the file, newest first; records of equal time
  keep the order of the file; and a record without either timestamp field sorts as the
  epoch, time 0, for every list.
\<close>

theorem loadArticles_newest_first:
  assumes "readFile_articles env = Inr data" and "JSON_parse rt data = Inr articles"
    and "\<forall>a \<in> set articles. sortDate rt a \<noteq> InvalidDate"
  shows "mset (loadArticles rt env) = mset articles
    \<and> sorted_wrt (\<lambda>a b. notOlder (sortDate rt a) (sortDate rt b)) (loadArticles rt env)
    \<and> (\<forall>t. filter (\<lambda>a. sortDate rt a = TimeValue t) (loadArticles rt env)
           = filter (\<lambda>a. sortDate rt a = TimeValue t) articles)
    \<and> (\<forall>a. \<not> truthy (date a) \<and> \<not> truthy (published_at a) \<longrightarrow> sortDate rt a = TimeValue 0)"
proof -
  have l: "loadArticles rt env = sort_key (sortKey rt) articles"
    using assms by (simp add: loadArticles_def array_sort_sort_key)
  have 1: "mset (loadArticles rt env) = mset articles"
    by (simp add: l)
  have v: "\<forall>a \<in> set (loadArticles rt env). sortDate rt a \<noteq> InvalidDate"
    using assms(3) by (simp add: l)
  have "sorted (map (sortKey rt) (loadArticles rt env))"
    by (simp add: l)
  then have "sorted_wrt (\<lambda>a b. sortKey rt a \<le> sortKey rt b) (loadArticles rt env)"
    by (simp add: sorted_map)
  then have 2: "sorted_wrt (\<lambda>a b. notOlder (sortDate rt a) (sortDate rt b)) (loadArticles rt env)"
    by (rule sorted_wrt_mono_rel [rotated]) (use v in \<open>simp add: notOlder_sortKey\<close>)
  have 3: "filter (\<lambda>a. sortDate rt a = TimeValue t) (loadArticles rt env)
           = filter (\<lambda>a. sortDate rt a = TimeValue t) articles" for t
  proof -
    have "filter (\<lambda>a. sortDate rt a = TimeValue t) (loadArticles rt env)
        = filter (\<lambda>a. sortKey rt a = - t) (loadArticles rt env)"
      by (rule filter_cong [OF refl]) (use v in \<open>simp add: sortDate_eq_sortKey\<close>)
    also have "\<dots> = filter (\<lambda>a. sortKey rt a = - t) articles"
      unfolding l by (rule sort_key_stable)
    also have "\<dots> = filter (\<lambda>a. sortDate rt a = TimeValue t) articles"
      by (rule filter_cong [OF refl]) (use assms(3) in \<open>simp add: sortDate_eq_sortKey\<close>)
    finally show ?thesis .
  qed
  from 1 2 3 sortDate_missing show ?thesis by blast
qed

theorem loadArticles_newest_first_witness:
  "readFile_articles (fs_with (Inr three_articles_json)) = Inr three_articles_json
   \<and> JSON_parse demo_runtime three_articles_json = Inr [jan_article, mar_article, undated_article]
   \<and> sortDate demo_runtime jan_article = TimeValue 1704067200000
   \<and> sortDate demo_runtime mar_article = TimeValue 1709251200000
   \<and> sortDate demo_runtime undated_article = TimeValue 0
   \<and> loadArticles demo_runtime (fs_with (Inr three_articles_json))
       = [mar_article, jan_article, undated_article]
   \<and> sorted_wrt (\<lambda>a b. notOlder (sortDate demo_runtime a) (sortDate demo_runtime b))
        (loadArticles demo_runtime (fs_with (Inr three_articles_json)))"
proof -
  let ?env = "fs_with (Inr three_articles_json)"
  have r: "readFile_articles ?env = Inr three_articles_json"
    by (simp add: fs_with_def)
  have p: "JSON_parse demo_runtime three_articles_json
      = Inr [jan_article, mar_article, undated_article]"
    by (simp add: demo_runtime_def demo_JSON_parse_def)
  have j: "sortDate demo_runtime jan_article = TimeValue 1704067200000"
    and m: "sortDate demo_runtime mar_article = TimeValue 1709251200000"
    and u: "sortDate demo_runtime undated_article = TimeValue 0"
    by (simp_all add: sortDate_def newDateOr_def newDate_def js_or_def truthy_def
        jan_article_def mar_article_def undated_article_def demo_runtime_def
        demo_Date_parse_def)
  have v: "\<forall>a \<in> set [jan_article, mar_article, undated_article].
      sortDate demo_runtime a \<noteq> InvalidDate"
    by (simp add: j m u)
  note t = loadArticles_newest_first [OF r p v]
  have l: "loadArticles demo_runtime ?env = [mar_article, jan_article, undated_article]"
    by (simp add: loadArticles_def r p array_sort_def sortCompare_def compareArticles_def
        dateMinus_def j m u)
  from t have s: "sorted_wrt (\<lambda>a b. notOlder (sortDate demo_runtime a) (sortDate demo_runtime b))
      (loadArticles demo_runtime ?env)"
    by blast
  from r p j m u l s show ?thesis by (intro conjI)
qed

text \<open>
  Claim C6, as it is written, fails for a list with a timestamp that is not a date.  The
  comparator returns NaN for every pair with that record, the sort takes NaN as 0 and
  moves nothing, and the January record stays in front of the March record.
\<close>

theorem loadArticles_unparseable_keeps_order:
  "readFile_articles (fs_with (Inr mixed_articles_json)) = Inr mixed_articles_json
   \<and> JSON_parse demo_runtime mixed_articles_json
       = Inr [jan_article, unparseable_article, mar_article]
   \<and> sortDate demo_runtime jan_article = TimeValue 1704067200000
   \<and> sortDate demo_runtime unparseable_article = InvalidDate
   \<and> sortDate demo_runtime mar_article = TimeValue 1709251200000
   \<and> loadArticles demo_runtime (fs_with (Inr mixed_articles_json))
       = [jan_article, unparseable_article, mar_article]
   \<and> \<not> notOlder (sortDate demo_runtime jan_article) (sortDate demo_runtime mar_article)"
proof -
  let ?env = "fs_with (Inr mixed_articles_json)"
  have r: "readFile_articles ?env = Inr mixed_articles_json"
    by (simp add: fs_with_def)
  have p: "JSON_parse demo_runtime mixed_articles_json
      = Inr [jan_article, unparseable_article, mar_article]"
    by (simp add: demo_runtime_def demo_JSON_parse_def mixed_articles_json_def
        three_articles_json_def)
  have j: "sortDate demo_runtime jan_article = TimeValue 1704067200000"
    and g: "sortDate demo_runtime unparseable_article = InvalidDate"
    and m: "sortDate demo_runtime mar_article = TimeValue 1709251200000"
    by (simp_all add: sortDate_def newDateOr_def newDate_def js_or_def truthy_def
        jan_article_def mar_article_def unparseable_article_def no_article_def
        demo_runtime_def demo_Date_parse_def)
  have l: "loadArticles demo_runtime ?env = [jan_article, unparseable_article, mar_article]"
    by (simp add: loadArticles_def r p array_sort_def sortCompare_def compareArticles_def
        dateMinus_def j g m)
  have n: "\<not> notOlder (sortDate demo_runtime jan_article) (sortDate demo_runtime mar_article)"
    by (simp add: notOlder_def dateMinus_def j m)
  from r p j g m l n show ?thesis by (intro conjI)
qed

section \<open>Properties of the build\<close>

lemma writeAll_ok: "\<forall>p. writeFile_error env p = None \<Longrightarrow> writeAll env ps = Inr ps"
  by (induction ps) simp_all

lemma writeAll_same:
  "writeFile_error env' = writeFile_error env \<Longrightarrow> writeAll env' ps = writeAll env ps"
  by (induction ps) (simp_all split: option.splits)

lemma copyImages_same:
  "copyFile_error env' = copyFile_error env \<Longrightarrow> copyImages env' is = copyImages env is"
  by (induction "is") (simp_all split: option.splits)

text \<open>The build sees the articles file only through \<open>loadArticles\<close>.\<close>

lemma build_reads_through_loadArticles:
  assumes "loadArticles rt env' = loadArticles rt env"
    and "mkdir_error env' = mkdir_error env"
    and "readdir_images env' = readdir_images env"
    and "writeFile_error env' = writeFile_error env"
    and "copyFile_error env' = copyFile_error env"
  shows "build rt env' = build rt env"
proof -
  have w: "writeAll env' ps = writeAll env ps" for ps
    using assms(4) by (rule writeAll_same)
  have "copyImages env' is = copyImages env is" for "is"
    using assms(5) by (rule copyImages_same)
  then have c: "copyAssets env' = copyAssets env"
    using assms(3,4) by (simp add: copyAssets_def cong: option.case_cong sum.case_cong)
  show ?thesis
    by (simp add: build_def c w assms(1,2) cong: option.case_cong sum.case_cong)
qed

lemma build_completes:
  assumes "mkdir_error env = None" and "\<forall>p. writeFile_error env p = None"
  shows "\<exists>w. build rt env = Inr \<lparr>rendered = loadArticles rt env, written = w\<rparr>"
  using assms by (simp add: build_def copyAssets_def writeAll_ok Let_def)

text \<open>
  Claim C1, as the code has it.  Content that \<^verbatim>\<open>JSON.parse\<close> rejects is not fatal: the
  \<^verbatim>\<open>catch\<close> of \<open>loadArticles\<close> answers it with the sample article, the build goes on as
  it does for a missing file, and it completes when the directory and file writes succeed.
\<close>

theorem loadArticles_malformed_json:
  assumes "readFile_articles env = Inr data" and "JSON_parse rt data = Inl e"
  shows "loadArticles rt env = createSampleArticles rt
    \<and> build rt env = build rt (env\<lparr>readFile_articles := Inl ENOENT\<rparr>)
    \<and> (mkdir_error env = None \<and> (\<forall>p. writeFile_error env p = None)
        \<longrightarrow> (\<exists>w. build rt env = Inr \<lparr>rendered = createSampleArticles rt, written = w\<rparr>))"
proof -
  have l: "loadArticles rt env = createSampleArticles rt"
    using assms by (simp add: loadArticles_def)
  have l': "loadArticles rt (env\<lparr>readFile_articles := Inl ENOENT\<rparr>) = createSampleArticles rt"
    by (simp add: loadArticles_def)
  have b: "build rt env = build rt (env\<lparr>readFile_articles := Inl ENOENT\<rparr>)"
    by (rule build_reads_through_loadArticles [symmetric]) (simp_all add: l l')
  have c: "mkdir_error env = None \<and> (\<forall>p. writeFile_error env p = None)
        \<longrightarrow> (\<exists>w. build rt env = Inr \<lparr>rendered = createSampleArticles rt, written = w\<rparr>)"
    using build_completes [of env rt] l by simp
  from l b c show ?thesis by blast
qed

theorem loadArticles_malformed_json_witness:
  "readFile_articles (fs_with (Inr ''{not json'')) = Inr ''{not json''
   \<and> JSON_parse demo_runtime ''{not json'' = Inl SyntaxError
   \<and> mkdir_error (fs_with (Inr ''{not json'')) = None
   \<and> (\<forall>p. writeFile_error (fs_with (Inr ''{not json'')) p = None)
   \<and> loadArticles demo_runtime (fs_with (Inr ''{not json'')) = createSampleArticles demo_runtime
   \<and> build demo_runtime (fs_with (Inr ''{not json'')) = build demo_runtime (fs_with (Inl ENOENT))
   \<and> (\<exists>w. build demo_runtime (fs_with (Inr ''{not json''))
          = Inr \<lparr>rendered = createSampleArticles demo_runtime, written = w\<rparr>)"
proof -
  let ?env = "fs_with (Inr ''{not json'')"
  have r: "readFile_articles ?env = Inr ''{not json''"
    by (simp add: fs_with_def)
  have p: "JSON_parse demo_runtime ''{not json'' = Inl SyntaxError"
    by (simp add: demo_runtime_def demo_JSON_parse_def three_articles_json_def
        mixed_articles_json_def)
  have m: "mkdir_error ?env = None" and w: "\<forall>p. writeFile_error ?env p = None"
    by (simp_all add: fs_with_def)
  have e: "?env\<lparr>readFile_articles := Inl ENOENT\<rparr> = fs_with (Inl ENOENT)"
    by (simp add: fs_with_def)
  note t = loadArticles_malformed_json [OF r p, unfolded e]
  from t have 1: "loadArticles demo_runtime ?env = createSampleArticles demo_runtime"
    by (rule conjunct1)
  from t have 2: "build demo_runtime ?env = build demo_runtime (fs_with (Inl ENOENT))"
    by blast
  from t m w have 3: "\<exists>w. build demo_runtime ?env
      = Inr \<lparr>rendered = createSampleArticles demo_runtime, written = w\<rparr>"
    by blast
  from r p m w 1 2 3 show ?thesis by (intro conjI)
qed

text \<open>
  Claim C1, as it is written, fails: the build of a file that holds \<^verbatim>\<open>{not json\<close> is
  not fatal.  It ends with the sample article rendered and all four files written.
\<close>

theorem build_malformed_json_not_fatal:
  "readFile_articles (fs_with (Inr ''{not json'')) = Inr ''{not json''
   \<and> JSON_parse demo_runtime ''{not json'' = Inl SyntaxError
   \<and> build demo_runtime (fs_with (Inr ''{not json''))
       = Inr \<lparr>rendered = createSampleArticles demo_runtime,
              written = [''dist/styles.css'', ''dist/index.html'',
                         ''dist/articles/sample-article.html'', ''dist/feed.xml'']\<rparr>"
  by (simp add: build_def loadArticles_def fs_with_def demo_runtime_def demo_JSON_parse_def
      three_articles_json_def mixed_articles_json_def copyAssets_def pagePaths_def createSampleArticles_def
      getArticleSlug_def js_or_def truthy_def or_string_def toLowerCase_def lower_char_def
      alnum_def trimHyphens_def)

end
